theory Spec2Isabelle
  imports Complex_Main
begin

section \<open>Data model\<close>

text \<open>
  The two entities of the game, \<^verbatim>\<open>Book\<close> (src/game/entities/Book.js) and \<^verbatim>\<open>Shelf\<close>
  (the second source file), are JavaScript classes extending \<^verbatim>\<open>Entity\<close>. They refer to
  each other: a shelf's \<^verbatim>\<open>books\<close> array holds book objects, a book's \<^verbatim>\<open>shelf\<close> field holds
  a shelf object. Objects are therefore kept in a store and named by references; a
  JavaScript reference always denotes a live object, so the store is a total function.

  JavaScript Numbers are modelled as reals: finite values with exact arithmetic
  (no NaN, no infinities, no rounding). The properties of computed numbers are
  stated through the same operations in the same order as the code and through
  comparisons of their results, so that they do not rest on a result being exact.
\<close>

type_synonym book_ref = nat
type_synonym shelf_ref = nat
type_synonym entity_ref = nat

text \<open>
  Modelled from the spec: the \<^verbatim>\<open>Entity\<close> base class (Entity.js) is not among the sources;
  the spec gives its fields as \<^verbatim>\<open>x, y, width, height, vx, vy, visible\<close>, and both
  constructors call \<^verbatim>\<open>super(x, y, w, h)\<close>.
\<close>

record Entity =
  x :: real
  y :: real
  width :: real
  height :: real
  vx :: real
  vy :: real
  visible :: bool

text \<open>
  The fields of \<^verbatim>\<open>Book\<close> that its methods read or write. \<^verbatim>\<open>glowCanvas\<close> records whether
  the pre-rendered canvas exists. The fields \<^verbatim>\<open>game\<close>, \<^verbatim>\<open>id\<close>, \<^verbatim>\<open>bounceDecay\<close>, \<^verbatim>\<open>gravity\<close>,
  \<^verbatim>\<open>collisionBox\<close> and \<^verbatim>\<open>glowCtx\<close> are never read by the methods modelled here.
\<close>

record Book = Entity +
  color :: string
  isHeld :: bool
  isShelved :: bool
  holder :: "entity_ref option"
  shelf :: "shelf_ref option"
  friction :: real
  rotation :: real
  rotationSpeed :: real
  sparkleTimer :: real
  glowIntensity :: real
  glowDirection :: real
  glowCanvas :: bool
  glowNeedsUpdate :: bool

text \<open>
  The fields of \<^verbatim>\<open>Shelf\<close>. A slot of \<^verbatim>\<open>books\<close> is \<^verbatim>\<open>null\<close> (\<open>None\<close>) or a book.
  \<^verbatim>\<open>color\<close>, \<^verbatim>\<open>glowCanvas\<close> and \<^verbatim>\<open>glowNeedsUpdate\<close> carry a prefix here, the plain names
  being fields of \<open>Book\<close>.
\<close>

record Shelf = Entity +
  shelfColor :: string
  capacity :: nat
  books :: "book_ref option list"
  emptySlotGlow :: real
  emptySlotGlowDirection :: real
  shelfGlowCanvas :: bool
  shelfGlowNeedsUpdate :: bool
  lastGlowColor :: "string option"

record world =
  bookHeap :: "book_ref \<Rightarrow> Book"
  shelfHeap :: "shelf_ref \<Rightarrow> Shelf"

section \<open>Book\<close>

text \<open>
  The constructor \<^verbatim>\<open>new Book(game, x, y, color)\<close>. The initial \<^verbatim>\<open>vx\<close>, \<^verbatim>\<open>vy\<close> and
  \<^verbatim>\<open>visible\<close> are set by the \<^verbatim>\<open>Entity\<close> constructor; they are taken to be 0, 0 and true.
\<close>

definition new_Book :: "real \<Rightarrow> real \<Rightarrow> string \<Rightarrow> Book" where
  "new_Book x0 y0 c =
     \<lparr> x = x0, y = y0, width = 16, height = 20, vx = 0, vy = 0, visible = True,
       color = c, isHeld = False, isShelved = False, holder = None, shelf = None,
       friction = 0.9, rotation = 0, rotationSpeed = 0, sparkleTimer = 0,
       glowIntensity = 0, glowDirection = 1, glowCanvas = False, glowNeedsUpdate = True \<rparr>"

text \<open>
  The overlap test of \<^verbatim>\<open>Book.update\<close> between the book and one shelf (axis-aligned
  boxes, touching edges count as overlapping).
\<close>

definition overlaps :: "Book \<Rightarrow> Shelf \<Rightarrow> bool" where
  "overlaps b sh =
     (\<not> (x b + width b < x sh \<or> x b > x sh + width sh \<or>
         y b + height b < y sh \<or> y b > y sh + height sh))"

text \<open>
  The body of the collision branch: back to the old position, velocity reversed and
  halved, then the two \<^verbatim>\<open>Math.random()\<close> draws \<open>r1\<close>, \<open>r2\<close> added as jitter.
\<close>

definition bounce :: "real \<Rightarrow> real \<Rightarrow> real \<times> real \<Rightarrow> Book \<Rightarrow> Book" where
  "bounce oldX oldY rnd b =
     b\<lparr> x := oldX, y := oldY,
        vx := - vx b * 0.5 + (fst rnd - 0.5) * 20,
        vy := - vy b * 0.5 + (snd rnd - 0.5) * 20 \<rparr>"

text \<open>The loop \<^verbatim>\<open>for (const shelf of state.shelves)\<close> with its \<^verbatim>\<open>break\<close>.\<close>

fun collide :: "real \<Rightarrow> real \<Rightarrow> real \<times> real \<Rightarrow> Shelf list \<Rightarrow> Book \<Rightarrow> Book" where
  "collide oldX oldY rnd [] b = b"
| "collide oldX oldY rnd (sh # rest) b =
     (if overlaps b sh then bounce oldX oldY rnd b else collide oldX oldY rnd rest b)"

definition applyFriction :: "Book \<Rightarrow> Book" where
  "applyFriction b = b\<lparr> vx := vx b * friction b, vy := vy b * friction b \<rparr>"

definition move :: "real \<Rightarrow> Book \<Rightarrow> Book" where
  "move deltaTime b = b\<lparr> x := x b + vx b * deltaTime, y := y b + vy b * deltaTime \<rparr>"

text \<open>
  \<open>shelves\<close> is \<^verbatim>\<open>state.shelves\<close>; it is \<open>None\<close> when \<^verbatim>\<open>state && state.shelves\<close> is falsy.
\<close>

definition checkShelves :: "real \<Rightarrow> real \<Rightarrow> real \<times> real \<Rightarrow> Shelf list option \<Rightarrow> Book \<Rightarrow> Book" where
  "checkShelves oldX oldY rnd shelves b =
     (if \<not> isShelved b then
        (case shelves of None \<Rightarrow> b | Some shs \<Rightarrow> collide oldX oldY rnd shs b)
      else b)"

definition spin :: "real \<Rightarrow> Book \<Rightarrow> Book" where
  "spin deltaTime b =
     b\<lparr> rotation := rotation b + rotationSpeed b * deltaTime,
        rotationSpeed := rotationSpeed b * 0.95 \<rparr>"

definition sparkle :: "real \<Rightarrow> Book \<Rightarrow> Book" where
  "sparkle deltaTime b = b\<lparr> sparkleTimer := sparkleTimer b + deltaTime \<rparr>"

text \<open>
  The glow step. The code forms the sum in double precision, so for a very small
  \<^verbatim>\<open>deltaTime\<close> it can round back to the old intensity, where the exact sum used here
  lies strictly beyond it. What is proved of the glow below uses only how the sum
  compares with the two bounds, which branch is taken, and never that the sum is exact.
\<close>

definition glowPulse :: "real \<Rightarrow> Book \<Rightarrow> Book" where
  "glowPulse deltaTime b =
     (let g = glowIntensity b + glowDirection b * deltaTime * 2 in
      if g \<ge> 1 then b\<lparr> glowIntensity := 1, glowDirection := - 1 \<rparr>
      else if g \<le> 0.3 then b\<lparr> glowIntensity := 0.3, glowDirection := 1 \<rparr>
      else b\<lparr> glowIntensity := g \<rparr>)"

definition stopIfSlow :: "Book \<Rightarrow> Book" where
  "stopIfSlow b = (if \<bar>vx b\<bar> < 5 \<and> \<bar>vy b\<bar> < 5 then b\<lparr> vx := 0, vy := 0 \<rparr> else b)"

text \<open>
  \<^verbatim>\<open>Book.update(deltaTime)\<close>. Besides the book it reads the shelves of the current
  state and, on a collision, two random numbers.
\<close>

definition update :: "real \<Rightarrow> Shelf list option \<Rightarrow> real \<times> real \<Rightarrow> Book \<Rightarrow> Book" where
  "update deltaTime shelves rnd b =
     (if isHeld b then b
      else
        let b1 = applyFriction b;
            oldX = x b1;
            oldY = y b1;
            b2 = move deltaTime b1;
            b3 = checkShelves oldX oldY rnd shelves b2
        in stopIfSlow (glowPulse deltaTime (sparkle deltaTime (spin deltaTime b3))))"

definition pickup :: "entity_ref option \<Rightarrow> Book \<Rightarrow> Book" where
  "pickup h b =
     b\<lparr> isHeld := True, holder := h, vx := 0, vy := 0, rotation := 0, rotationSpeed := 0 \<rparr>"

text \<open>
  \<^verbatim>\<open>drop(x, y, throwVelocity = null)\<close> (named \<open>drop_book\<close>, as \<open>drop\<close> is a list function);
  \<open>r\<close> is the \<^verbatim>\<open>Math.random()\<close> draw used when a
  throw velocity is given.
\<close>

definition drop_book :: "real \<Rightarrow> real \<Rightarrow> (real \<times> real) option \<Rightarrow> real \<Rightarrow> Book \<Rightarrow> Book" where
  "drop_book x0 y0 throwVelocity r b =
     (let b1 = b\<lparr> isHeld := False, holder := None, x := x0, y := y0 \<rparr> in
      case throwVelocity of
        None \<Rightarrow> b1
      | Some v \<Rightarrow> b1\<lparr> vx := fst v, vy := snd v, rotationSpeed := (r - 0.5) * 10 \<rparr>)"

definition shelve :: "shelf_ref option \<Rightarrow> Book \<Rightarrow> Book" where
  "shelve s b =
     b\<lparr> isShelved := True, isHeld := False, holder := None, shelf := s,
        vx := 0, vy := 0, rotation := 0, rotationSpeed := 0 \<rparr>"

definition unshelve :: "Book \<Rightarrow> Book" where
  "unshelve b = b\<lparr> isShelved := False, shelf := None \<rparr>"

text \<open>
  The effect of \<^verbatim>\<open>render\<close> on the book itself (what it draws on the canvas is not
  modelled): only \<^verbatim>\<open>renderOptimizedGlow\<close>, called for a book on the floor, writes fields.
\<close>

definition renderOptimizedGlow :: "Book \<Rightarrow> Book" where
  "renderOptimizedGlow b =
     (if \<not> glowCanvas b \<or> glowNeedsUpdate b
      then b\<lparr> glowCanvas := True, glowNeedsUpdate := False \<rparr> else b)"

definition render :: "Book \<Rightarrow> Book" where
  "render b =
     (if \<not> visible b then b
      else if \<not> isHeld b \<and> \<not> isShelved b then renderOptimizedGlow b
      else b)"

section \<open>Shelf\<close>

text \<open>The constructor \<^verbatim>\<open>new Shelf(game, x, y, color, capacity = 6)\<close>.\<close>

definition new_Shelf :: "real \<Rightarrow> real \<Rightarrow> string \<Rightarrow> nat \<Rightarrow> Shelf" where
  "new_Shelf x0 y0 c n =
     \<lparr> x = x0, y = y0, width = 64, height = 96, vx = 0, vy = 0, visible = True,
       shelfColor = c, capacity = n, books = replicate n None,
       emptySlotGlow = 0, emptySlotGlowDirection = 1,
       shelfGlowCanvas = False, shelfGlowNeedsUpdate = True, lastGlowColor = None \<rparr>"

text \<open>
  Reading \<^verbatim>\<open>this.books[i]\<close>: outside the array JavaScript yields \<^verbatim>\<open>undefined\<close>, which is
  falsy like \<^verbatim>\<open>null\<close>. Writing \<^verbatim>\<open>this.books[i] = v\<close> beyond the end extends the array; the
  positions in between become holes, which read as \<^verbatim>\<open>undefined\<close> and which \<^verbatim>\<open>filter\<close> and
  \<^verbatim>\<open>forEach\<close> skip, so in every method below a hole behaves as \<^verbatim>\<open>null\<close>.
\<close>

definition js_get :: "'a option list \<Rightarrow> nat \<Rightarrow> 'a option" where
  "js_get xs i = (if i < length xs then xs ! i else None)"

definition js_set :: "'a option list \<Rightarrow> nat \<Rightarrow> 'a option \<Rightarrow> 'a option list" where
  "js_set xs i v =
     (if i < length xs then xs[i := v] else xs @ replicate (i - length xs) None @ [v])"

text \<open>\<^verbatim>\<open>this.books.filter(book => book !== null).length\<close>\<close>

definition bookCount :: "Shelf \<Rightarrow> nat" where
  "bookCount sh = length (filter (\<lambda>book. book \<noteq> None) (books sh))"

definition hasEmptySlots :: "Shelf \<Rightarrow> bool" where
  "hasEmptySlots sh = (bookCount sh < capacity sh)"

definition getEmptySlotCount :: "Shelf \<Rightarrow> int" where
  "getEmptySlotCount sh = int (capacity sh) - int (bookCount sh)"

text \<open>
  The loop \<^verbatim>\<open>while (slotIndex < this.capacity && this.books[slotIndex]) slotIndex++\<close>
  of \<^verbatim>\<open>addBook\<close>, started at \<open>slotIndex\<close>.
\<close>

function firstEmptySlot :: "Shelf \<Rightarrow> nat \<Rightarrow> nat" where
  "firstEmptySlot sh slotIndex =
     (if slotIndex < capacity sh \<and> js_get (books sh) slotIndex \<noteq> None
      then firstEmptySlot sh (Suc slotIndex) else slotIndex)"
  by pat_completeness auto
termination
  by (relation "measure (\<lambda>(sh, slotIndex). capacity sh - slotIndex)") auto

declare firstEmptySlot.simps [simp del]

definition addBook :: "shelf_ref \<Rightarrow> book_ref \<Rightarrow> world \<Rightarrow> bool \<times> world" where
  "addBook s b w =
     (let sh = shelfHeap w s; book = bookHeap w b in
      if \<not> hasEmptySlots sh \<or> color book \<noteq> shelfColor sh then (False, w)
      else
        let slotIndex = firstEmptySlot sh 0 in
        if slotIndex < capacity sh then
          (True, w\<lparr> shelfHeap := (shelfHeap w)(s := sh\<lparr> books := js_set (books sh) slotIndex (Some b) \<rparr>),
                    bookHeap := (bookHeap w)(b := shelve (Some s) book) \<rparr>)
        else (False, w))"

text \<open>\<^verbatim>\<open>removeBook(index)\<close> for an integer \<open>index\<close>.\<close>

definition removeBook :: "shelf_ref \<Rightarrow> int \<Rightarrow> world \<Rightarrow> book_ref option \<times> world" where
  "removeBook s index w =
     (let sh = shelfHeap w s in
      if index \<ge> 0 \<and> index < int (length (books sh)) then
        (case js_get (books sh) (nat index) of
           None \<Rightarrow> (None, w)
         | Some b \<Rightarrow>
             (Some b, w\<lparr> shelfHeap := (shelfHeap w)(s := sh\<lparr> books := js_set (books sh) (nat index) None \<rparr>),
                        bookHeap := (bookHeap w)(b := unshelve (bookHeap w b)) \<rparr>))
      else (None, w))"

text \<open>
  \<^verbatim>\<open>removeRandomBook()\<close>; \<open>r\<close> is the \<^verbatim>\<open>Math.random()\<close> draw. An index outside
  \<^verbatim>\<open>bookIndices\<close> would read \<^verbatim>\<open>undefined\<close>, which \<^verbatim>\<open>removeBook\<close> answers with \<^verbatim>\<open>null\<close>.
\<close>

definition bookIndices :: "Shelf \<Rightarrow> nat list" where
  "bookIndices sh = filter (\<lambda>i. js_get (books sh) i \<noteq> None) [0 ..< length (books sh)]"

definition removeRandomBook :: "shelf_ref \<Rightarrow> real \<Rightarrow> world \<Rightarrow> book_ref option \<times> world" where
  "removeRandomBook s r w =
     (let idxs = bookIndices (shelfHeap w s) in
      if length idxs = 0 then (None, w)
      else
        let k = \<lfloor>r * real (length idxs)\<rfloor> in
        if 0 \<le> k \<and> k < int (length idxs) then removeBook s (int (idxs ! nat k)) w
        else (None, w))"

text \<open>
  \<^verbatim>\<open>Shelf.update(deltaTime)\<close>; \<open>carried\<close> is \<^verbatim>\<open>state.player.carriedBooks\<close>, \<open>None\<close> when
  \<^verbatim>\<open>state && state.player\<close> is falsy.
\<close>

definition Shelf_update :: "shelf_ref \<Rightarrow> real \<Rightarrow> book_ref list option \<Rightarrow> world \<Rightarrow> world" where
  "Shelf_update s deltaTime carried w =
     (let sh = shelfHeap w s in
      if hasEmptySlots sh then
        let playerHasMatchingBook =
              (case carried of None \<Rightarrow> False
               | Some bs \<Rightarrow> list_ex (\<lambda>b. color (bookHeap w b) = shelfColor sh) bs);
            glowSpeed = (if playerHasMatchingBook then 4 else 2);
            maxGlow = (if playerHasMatchingBook then 1 else 0.7);
            minGlow = (if playerHasMatchingBook then 0.5 else 0.3);
            g = emptySlotGlow sh + emptySlotGlowDirection sh * deltaTime * glowSpeed;
            sh' = (if g \<ge> maxGlow then sh\<lparr> emptySlotGlow := maxGlow, emptySlotGlowDirection := - 1 \<rparr>
                   else if g \<le> minGlow then sh\<lparr> emptySlotGlow := minGlow, emptySlotGlowDirection := 1 \<rparr>
                   else sh\<lparr> emptySlotGlow := g \<rparr>)
        in w\<lparr> shelfHeap := (shelfHeap w)(s := sh') \<rparr>
      else w\<lparr> shelfHeap := (shelfHeap w)(s := sh\<lparr> emptySlotGlow := 0 \<rparr>) \<rparr>)"

text \<open>
  \<^verbatim>\<open>renderBooks(ctx)\<close>, as far as it changes shelves and books (the drawing itself is not
  modelled). \<open>renderSlot\<close> is the callback of \<^verbatim>\<open>this.books.forEach\<close> at one index.
\<close>

definition renderSlot :: "shelf_ref \<Rightarrow> nat \<Rightarrow> world \<Rightarrow> world" where
  "renderSlot s index w =
     (let sh = shelfHeap w s; slotWidth = width sh / 3 in
      case js_get (books sh) index of
        None \<Rightarrow> w
      | Some b \<Rightarrow>
          let book = bookHeap w b in
          if \<not> isShelved book \<or> shelf book \<noteq> Some s then
            w\<lparr> shelfHeap := (shelfHeap w)(s := sh\<lparr> books := js_set (books sh) index None \<rparr>) \<rparr>
          else
            let row = index div 3; col = index mod 3;
                book' = book\<lparr> x := x sh + real col * slotWidth + (slotWidth - width book) / 2,
                              y := y sh + 24 + real row * 24 \<rparr>
            in w\<lparr> bookHeap := (bookHeap w)(b := render book') \<rparr>)"

definition renderBooks :: "shelf_ref \<Rightarrow> world \<Rightarrow> world" where
  "renderBooks s w = fold (renderSlot s) [0 ..< length (books (shelfHeap w s))] w"

text \<open>
  A sequence of calls on shelves, each with the arguments and random draws it consumes.
\<close>

datatype shelf_call =
    AddBook shelf_ref book_ref
  | RemoveBook shelf_ref int
  | RemoveRandomBook shelf_ref real
  | Update shelf_ref real "book_ref list option"
  | RenderBooks shelf_ref

fun call :: "shelf_call \<Rightarrow> world \<Rightarrow> world" where
  "call (AddBook s b) w = snd (addBook s b w)"
| "call (RemoveBook s index) w = snd (removeBook s index w)"
| "call (RemoveRandomBook s r) w = snd (removeRandomBook s r w)"
| "call (Update s deltaTime carried) w = Shelf_update s deltaTime carried w"
| "call (RenderBooks s) w = renderBooks s w"

definition calls :: "shelf_call list \<Rightarrow> world \<Rightarrow> world" where
  "calls cs w = fold call cs w"

section \<open>Notions used by the properties\<close>

text \<open>
  The state model of a book: held and shelved exclude each other (a book is held, or
  shelved, or neither).
\<close>

definition mutuallyExclusive :: "Book \<Rightarrow> bool" where
  "mutuallyExclusive b = (\<not> (isHeld b \<and> isShelved b))"

text \<open>
  The position \<^verbatim>\<open>update\<close> tries before it looks at the shelves, and whether that position
  overlaps a shelf of the current state.
\<close>

definition tentative :: "real \<Rightarrow> Book \<Rightarrow> Book" where
  "tentative deltaTime b = move deltaTime (applyFriction b)"

definition hitsShelf :: "real \<Rightarrow> Shelf list option \<Rightarrow> Book \<Rightarrow> bool" where
  "hitsShelf deltaTime shelves b =
     (case shelves of None \<Rightarrow> False
      | Some shs \<Rightarrow> list_ex (overlaps (tentative deltaTime b)) shs)"

text \<open>
  A frame is one call of \<^verbatim>\<open>update\<close>: its \<^verbatim>\<open>deltaTime\<close>, the shelves of the state at that
  moment, and the random draws. \<open>updates\<close> runs the frames in order with nothing in
  between; \<open>noCollision\<close> says that no frame's tentative position overlaps a shelf.
\<close>

type_synonym frame = "real \<times> Shelf list option \<times> (real \<times> real)"

fun updates :: "frame list \<Rightarrow> Book \<Rightarrow> Book" where
  "updates [] b = b"
| "updates ((deltaTime, shelves, rnd) # fs) b = updates fs (update deltaTime shelves rnd b)"

fun noCollision :: "frame list \<Rightarrow> Book \<Rightarrow> bool" where
  "noCollision [] b = True"
| "noCollision ((deltaTime, shelves, rnd) # fs) b =
     (\<not> hitsShelf deltaTime shelves b \<and> noCollision fs (update deltaTime shelves rnd b))"

text \<open>
  The constructor makes the slot array as long as the capacity; the methods keep it so.
\<close>

definition wellSized :: "Shelf \<Rightarrow> bool" where
  "wellSized sh = (length (books sh) = capacity sh)"

text \<open>What a slot holds after \<^verbatim>\<open>renderBooks\<close> of shelf \<open>s\<close> has visited it.\<close>

definition healed :: "world \<Rightarrow> shelf_ref \<Rightarrow> book_ref option \<Rightarrow> book_ref option" where
  "healed w s slot =
     (case slot of None \<Rightarrow> None
      | Some b \<Rightarrow> if isShelved (bookHeap w b) \<and> shelf (bookHeap w b) = Some s then Some b else None)"

section \<open>Example objects\<close>

text \<open>
  A store with a red shelf of capacity 2 at every shelf reference, a blue book at
  reference 0 and red books elsewhere.
\<close>

definition demoWorld :: world where
  "demoWorld =
     \<lparr> bookHeap = (\<lambda>i. new_Book 0 0 (if i = 0 then ''blue'' else ''red'')),
       shelfHeap = (\<lambda>i. new_Shelf 100 100 ''red'' 2) \<rparr>"

text \<open>
  A red book thrown to the right from the origin with velocity \<open>(4, 0)\<close>, and a shelf
  whose left edge is 4 units beyond the book's right edge: too far to be reached
  within a frame of 16 ms.
\<close>

definition thrownBook :: Book where
  "thrownBook = drop_book 0 0 (Some (4, 0)) 0.5 (new_Book 0 0 ''red'')"

definition nearShelf :: Shelf where
  "nearShelf = new_Shelf 20 0 ''red'' 6"

text \<open>
  A shelf whose left edge is 0.05 units beyond the book's right edge: the book does not
  overlap it, but its first move of 16 ms does.
\<close>

definition closeShelf :: Shelf where
  "closeShelf = new_Shelf 16.05 0 ''red'' 6"

text \<open>
  The store after a red book was put on shelf 0, the shelf was rendered (which places
  the book inside the shelf's box) and the book was taken off again with \<open>removeBook\<close>.
\<close>

definition takenOffWorld :: world where
  "takenOffWorld = snd (removeBook 0 0 (renderBooks 0 (snd (addBook 0 1 demoWorld))))"

text \<open>Two frames of 16 ms with \<open>nearShelf\<close> in the state.\<close>

definition calmFrames :: "frame list" where
  "calmFrames = [(0.016, Some [nearShelf], (0, 0)), (0.016, Some [nearShelf], (0, 0))]"



text \<open>
  The store after the red book 1 was put on shelf 0 and then on shelf 1: slot 0 of
  shelf 0 still names the book, which now refers to shelf 1.
\<close>

definition staleWorld :: world where
  "staleWorld = snd (addBook 1 1 (snd (addBook 0 1 demoWorld)))"

text \<open>
  Calls on shelf 0 of the example store: two books fill it, a third is refused, the
  second is taken off again.
\<close>

definition demoCalls :: "shelf_call list" where
  "demoCalls = [AddBook 0 1, AddBook 0 2, AddBook 0 3, RemoveBook 0 1, Update 0 0.016 None]"

section \<open>Auxiliary facts\<close>

lemmas demo_defs = demoWorld_def new_Book_def new_Shelf_def hasEmptySlots_def bookCount_def
  js_get_def js_set_def shelve_def unshelve_def Let_def

subsection \<open>The slot scan of \<open>addBook\<close>\<close>

lemma firstEmptySlot_ge: "k \<le> firstEmptySlot sh k"
proof (induction sh k rule: firstEmptySlot.induct)
  case (1 sh slotIndex)
  show ?case
  proof (cases "slotIndex < capacity sh \<and> js_get (books sh) slotIndex \<noteq> None")
    case True
    then have "firstEmptySlot sh slotIndex = firstEmptySlot sh (Suc slotIndex)"
      by (subst firstEmptySlot.simps) simp
    with 1 True show ?thesis by auto
  next
    case False
    then have "firstEmptySlot sh slotIndex = slotIndex"
      by (subst firstEmptySlot.simps) auto
    then show ?thesis by simp
  qed
qed

lemma firstEmptySlot_skipped:
  "k \<le> j \<Longrightarrow> j < firstEmptySlot sh k \<Longrightarrow> j < capacity sh \<and> js_get (books sh) j \<noteq> None"
proof (induction sh k rule: firstEmptySlot.induct)
  case (1 sh slotIndex)
  show ?case
  proof (cases "slotIndex < capacity sh \<and> js_get (books sh) slotIndex \<noteq> None")
    case True
    then have eq: "firstEmptySlot sh slotIndex = firstEmptySlot sh (Suc slotIndex)"
      by (subst firstEmptySlot.simps) simp
    show ?thesis
    proof (cases "j = slotIndex")
      case True
      with \<open>slotIndex < capacity sh \<and> js_get (books sh) slotIndex \<noteq> None\<close> show ?thesis by simp
    next
      case False
      with "1.prems" have "Suc slotIndex \<le> j" by simp
      with "1.IH" True "1.prems" eq show ?thesis by simp
    qed
  next
    case False
    then have "firstEmptySlot sh slotIndex = slotIndex"
      by (subst firstEmptySlot.simps) auto
    with "1.prems" show ?thesis by simp
  qed
qed

lemma firstEmptySlot_empty:
  "firstEmptySlot sh k < capacity sh \<Longrightarrow> js_get (books sh) (firstEmptySlot sh k) = None"
proof (induction sh k rule: firstEmptySlot.induct)
  case (1 sh slotIndex)
  show ?case
  proof (cases "slotIndex < capacity sh \<and> js_get (books sh) slotIndex \<noteq> None")
    case True
    then have eq: "firstEmptySlot sh slotIndex = firstEmptySlot sh (Suc slotIndex)"
      by (subst firstEmptySlot.simps) simp
    with "1.IH" True "1.prems" show ?thesis by simp
  next
    case False
    then have eq: "firstEmptySlot sh slotIndex = slotIndex"
      by (subst firstEmptySlot.simps) auto
    with "1.prems" False show ?thesis by simp
  qed
qed

lemma filter_take_length_le: "length (filter P (take n xs)) \<le> length (filter P xs)"
proof -
  have "length (filter P xs) = length (filter P (take n xs)) + length (filter P (drop n xs))"
    by (metis append_take_drop_id filter_append length_append)
  then show ?thesis by simp
qed

lemma all_occupied_count:
  assumes "\<forall>j<n. js_get xs j \<noteq> None"
  shows "n \<le> length (filter (\<lambda>v. v \<noteq> None) xs)"
proof -
  have len: "n \<le> length xs"
  proof (rule ccontr)
    assume "\<not> n \<le> length xs"
    with assms have "js_get xs (length xs) \<noteq> None" by simp
    then show False by (simp add: js_get_def)
  qed
  have "\<forall>v \<in> set (take n xs). v \<noteq> None"
  proof
    fix v assume "v \<in> set (take n xs)"
    then obtain i where i: "i < n" "i < length xs" "v = xs ! i"
      by (auto simp: in_set_conv_nth)
    with assms have "js_get xs i \<noteq> None" by blast
    with i show "v \<noteq> None" by (simp add: js_get_def)
  qed
  then have "filter (\<lambda>v. v \<noteq> None) (take n xs) = take n xs"
    by (simp add: filter_id_conv)
  with len have "length (filter (\<lambda>v. v \<noteq> None) (take n xs)) = n" by simp
  with filter_take_length_le [of "\<lambda>v. v \<noteq> None" n xs] show ?thesis by simp
qed

lemma hasEmptySlots_firstEmptySlot:
  assumes "hasEmptySlots sh"
  shows "firstEmptySlot sh 0 < capacity sh"
proof (rule ccontr)
  assume "\<not> firstEmptySlot sh 0 < capacity sh"
  then have "\<forall>j<capacity sh. js_get (books sh) j \<noteq> None"
    using firstEmptySlot_skipped [of 0 _ sh] by auto
  then have "capacity sh \<le> bookCount sh"
    unfolding bookCount_def by (rule all_occupied_count)
  with assms show False by (simp add: hasEmptySlots_def)
qed

lemma js_get_js_set_other: "j \<noteq> i \<Longrightarrow> js_get xs i = None \<Longrightarrow> js_get (js_set xs i v) j = js_get xs j"
  by (auto simp: js_get_def js_set_def nth_append)

lemma js_get_js_set_same: "js_get (js_set xs i v) i = v"
  by (auto simp: js_get_def js_set_def nth_append)

section \<open>Shelf: placing and removing books\<close>

text \<open>
  C1. For every shelf \<open>s\<close> and book \<open>b\<close>: \<open>addBook\<close> returns false when the shelf has no
  empty slot or the colours differ. Otherwise it returns true, the book is written to
  the lowest-indexed empty slot \<open>i\<close> (every slot below \<open>i\<close> is occupied, slot \<open>i\<close> was
  empty), every other slot reads as before (for a slot array of the constructor's
  length the new array is the old one updated at \<open>i\<close>), and the book has been shelved
  on \<open>s\<close>:
  \<open>isShelved\<close> is true and \<open>shelf\<close> refers to \<open>s\<close>.
\<close>

theorem addBook_first_fit:
  assumes "addBook s b w = (r, w')"
  shows "if \<not> hasEmptySlots (shelfHeap w s) \<or> color (bookHeap w b) \<noteq> shelfColor (shelfHeap w s)
         then r = False
         else r = True \<and>
              (\<exists>i. i < capacity (shelfHeap w s) \<and>
                   js_get (books (shelfHeap w s)) i = None \<and>
                   (\<forall>j<i. js_get (books (shelfHeap w s)) j \<noteq> None) \<and>
                   books (shelfHeap w' s) = js_set (books (shelfHeap w s)) i (Some b) \<and>
                   (wellSized (shelfHeap w s) \<longrightarrow>
                      i < length (books (shelfHeap w s)) \<and>
                      books (shelfHeap w' s) = (books (shelfHeap w s))[i := Some b]) \<and>
                   js_get (books (shelfHeap w' s)) i = Some b \<and>
                   (\<forall>j. j \<noteq> i \<longrightarrow> js_get (books (shelfHeap w' s)) j = js_get (books (shelfHeap w s)) j)) \<and>
              bookHeap w' b = shelve (Some s) (bookHeap w b) \<and>
              isShelved (bookHeap w' b) \<and> shelf (bookHeap w' b) = Some s"
proof (cases "\<not> hasEmptySlots (shelfHeap w s) \<or> color (bookHeap w b) \<noteq> shelfColor (shelfHeap w s)")
  case True
  with assms show ?thesis by (auto simp: addBook_def Let_def)
next
  case False
  define sh where "sh = shelfHeap w s"
  define i where "i = firstEmptySlot sh 0"
  from False have he: "hasEmptySlots sh" by (simp add: sh_def)
  then have lt: "i < capacity sh" unfolding i_def by (rule hasEmptySlots_firstEmptySlot)
  then have emp: "js_get (books sh) i = None" unfolding i_def by (rule firstEmptySlot_empty)
  have skipped: "\<forall>j<i. js_get (books sh) j \<noteq> None"
    unfolding i_def using firstEmptySlot_skipped [of 0 _ sh] by simp
  from assms False lt have r: "r = True"
    and w': "w' = w\<lparr> shelfHeap := (shelfHeap w)(s := sh\<lparr> books := js_set (books sh) i (Some b) \<rparr>),
                     bookHeap := (bookHeap w)(b := shelve (Some s) (bookHeap w b)) \<rparr>"
    by (auto simp: addBook_def Let_def sh_def i_def)
  from w' have bks: "books (shelfHeap w' s) = js_set (books sh) i (Some b)" by simp
  from w' have bk: "bookHeap w' b = shelve (Some s) (bookHeap w b)" by simp
  have other: "\<forall>j. j \<noteq> i \<longrightarrow> js_get (books (shelfHeap w' s)) j = js_get (books sh) j"
    using emp bks by (simp add: js_get_js_set_other)
  have same: "js_get (books (shelfHeap w' s)) i = Some b"
    using bks by (simp add: js_get_js_set_same)
  have sized: "wellSized sh \<longrightarrow> i < length (books sh) \<and> books (shelfHeap w' s) = (books sh)[i := Some b]"
    using lt bks by (simp add: wellSized_def js_set_def)
  have "isShelved (bookHeap w' b) \<and> shelf (bookHeap w' b) = Some s"
    using bk by (simp add: shelve_def)
  with False r lt emp skipped bks other same bk sized show ?thesis
    unfolding sh_def [symmetric] by (auto simp: sh_def)
qed

theorem addBook_first_fit_witness:
  "fst (addBook 0 1 demoWorld) = True \<and>
   books (shelfHeap (snd (addBook 0 1 demoWorld)) 0) = [Some 1, None] \<and>
   isShelved (bookHeap (snd (addBook 0 1 demoWorld)) 1) \<and>
   fst (addBook 0 0 demoWorld) = False"
  using addBook_first_fit [of 0 1 demoWorld "fst (addBook 0 1 demoWorld)" "snd (addBook 0 1 demoWorld)"]
    addBook_first_fit [of 0 0 demoWorld "fst (addBook 0 0 demoWorld)" "snd (addBook 0 0 demoWorld)"]
  by (simp add: addBook_def firstEmptySlot.simps demo_defs eval_nat_numeral)

text \<open>
  C2. For every shelf \<open>s\<close> and integer index \<open>i\<close>: when \<open>i\<close> is in range and slot \<open>i\<close>
  holds a book, \<open>removeBook\<close> returns that book, slot \<open>i\<close> becomes empty (the other
  slots stay) and the book is unshelved, so \<open>isShelved\<close> is false and \<open>shelf\<close> is
  cleared; on an empty or out-of-range slot it returns \<open>None\<close> and nothing changes.
\<close>

theorem removeBook_spec:
  assumes "removeBook s i w = (r, w')"
  shows "if 0 \<le> i \<and> i < int (length (books (shelfHeap w s))) \<and> books (shelfHeap w s) ! nat i \<noteq> None
         then r = books (shelfHeap w s) ! nat i \<and>
              books (shelfHeap w' s) = (books (shelfHeap w s))[nat i := None] \<and>
              (\<exists>b. r = Some b \<and> bookHeap w' b = unshelve (bookHeap w b) \<and>
                   \<not> isShelved (bookHeap w' b) \<and> shelf (bookHeap w' b) = None)
         else r = None \<and> w' = w"
  using assms
  by (auto simp: removeBook_def Let_def js_get_def js_set_def unshelve_def split: option.splits if_splits)

theorem removeBook_spec_witness:
  "fst (removeBook 0 0 (snd (addBook 0 1 demoWorld))) = Some 1 \<and>
   books (shelfHeap (snd (removeBook 0 0 (snd (addBook 0 1 demoWorld)))) 0) = [None, None] \<and>
   \<not> isShelved (bookHeap (snd (removeBook 0 0 (snd (addBook 0 1 demoWorld)))) 1) \<and>
   removeBook 0 1 (snd (addBook 0 1 demoWorld)) = (None, snd (addBook 0 1 demoWorld)) \<and>
   removeBook 0 (- 1) (snd (addBook 0 1 demoWorld)) = (None, snd (addBook 0 1 demoWorld)) \<and>
   removeBook 0 2 (snd (addBook 0 1 demoWorld)) = (None, snd (addBook 0 1 demoWorld))"
  using removeBook_spec [of 0 0 "snd (addBook 0 1 demoWorld)" "fst (removeBook 0 0 (snd (addBook 0 1 demoWorld)))" "snd (removeBook 0 0 (snd (addBook 0 1 demoWorld)))"]
  by (simp add: removeBook_def addBook_def firstEmptySlot.simps demo_defs eval_nat_numeral)

text \<open>
  C10. A failed \<open>addBook\<close> is atomic: whenever it returns false, the whole store is as
  before, so neither the slots of the shelf nor any field of the book has changed.
\<close>

theorem addBook_failure_atomic: "addBook s b w = (False, w') \<Longrightarrow> w' = w"
  by (auto simp: addBook_def Let_def split: if_splits)

theorem addBook_failure_atomic_witness:
  "addBook 0 0 demoWorld = (False, demoWorld) \<and>
   addBook 0 3 (snd (addBook 0 2 (snd (addBook 0 1 demoWorld)))) =
     (False, snd (addBook 0 2 (snd (addBook 0 1 demoWorld))))"
  using addBook_failure_atomic [of 0 0 demoWorld "snd (addBook 0 0 demoWorld)"]
    addBook_failure_atomic [of 0 3 "snd (addBook 0 2 (snd (addBook 0 1 demoWorld)))"
       "snd (addBook 0 3 (snd (addBook 0 2 (snd (addBook 0 1 demoWorld)))))"]
  by (simp add: addBook_def firstEmptySlot.simps demo_defs eval_nat_numeral)

section \<open>Book: state changes\<close>

text \<open>
  C4. \<open>pickup\<close> on a shelved book sets \<open>isHeld\<close> and the holder but leaves \<open>isShelved\<close>
  true and the shelf reference as it was, so the book is held and shelved at once,
  against the mutual exclusion of the book's state model; velocity, rotation and
  rotation speed are set to zero.
\<close>

theorem pickup_shelved_keeps_shelved:
  "isShelved b \<Longrightarrow>
     isHeld (pickup h b) \<and> holder (pickup h b) = h \<and>
     isShelved (pickup h b) \<and> shelf (pickup h b) = shelf b \<and>
     \<not> mutuallyExclusive (pickup h b) \<and>
     vx (pickup h b) = 0 \<and> vy (pickup h b) = 0 \<and>
     rotation (pickup h b) = 0 \<and> rotationSpeed (pickup h b) = 0"
  by (simp add: pickup_def mutuallyExclusive_def)

theorem pickup_shelved_keeps_shelved_witness:
  "isShelved (shelve (Some 2) (new_Book 3 4 ''red'')) \<and>
   isHeld (pickup (Some 7) (shelve (Some 2) (new_Book 3 4 ''red''))) \<and>
   isShelved (pickup (Some 7) (shelve (Some 2) (new_Book 3 4 ''red''))) \<and>
   shelf (pickup (Some 7) (shelve (Some 2) (new_Book 3 4 ''red''))) = Some 2 \<and>
   \<not> mutuallyExclusive (pickup (Some 7) (shelve (Some 2) (new_Book 3 4 ''red'')))"
  using pickup_shelved_keeps_shelved [of "shelve (Some 2) (new_Book 3 4 ''red'')" "Some 7"]
  by (simp add: shelve_def new_Book_def)

text \<open>
  C6. For a held book \<open>update\<close> changes nothing, whatever \<open>deltaTime\<close>, the shelves and
  the random draws are: the book after the call equals the book before it, in every
  field (position, velocity, rotation, rotation speed, sparkle timer, glow).
\<close>

theorem update_held_noop: "isHeld b \<Longrightarrow> update deltaTime shelves rnd b = b"
  by (simp add: update_def)

theorem update_held_noop_witness:
  "isHeld (pickup (Some 7) (new_Book 3 4 ''red'')) \<and>
   update 0.016 (Some [new_Shelf 0 0 ''red'' 6]) (0.25, 0.75) (pickup (Some 7) (new_Book 3 4 ''red''))
     = pickup (Some 7) (new_Book 3 4 ''red'')"
  using update_held_noop [of "pickup (Some 7) (new_Book 3 4 ''red'')" "0.016" "Some [new_Shelf 0 0 ''red'' 6]" "(0.25, 0.75)"]
  by (simp add: pickup_def new_Book_def)

section \<open>Book: physics\<close>

subsection \<open>The stages of \<open>update\<close>\<close>

lemma collide_no_hit: "\<not> list_ex (overlaps b) shs \<Longrightarrow> collide ox oy rnd shs b = b"
  by (induction shs) simp_all

lemma collide_hit: "list_ex (overlaps b) shs \<Longrightarrow> collide ox oy rnd shs b = bounce ox oy rnd b"
  by (induction shs) auto

lemma update_no_hit:
  assumes "\<not> isHeld b" "\<not> hitsShelf dt shelves b"
  shows "update dt shelves rnd b =
         stopIfSlow (glowPulse dt (sparkle dt (spin dt (tentative dt b))))"
proof -
  have "checkShelves ox oy rnd shelves (tentative dt b) = tentative dt b" for ox oy
    using assms(2) by (cases shelves) (simp_all add: checkShelves_def hitsShelf_def collide_no_hit)
  with assms(1) show ?thesis by (simp add: update_def Let_def tentative_def)
qed

lemma update_hit:
  assumes "\<not> isHeld b" "\<not> isShelved b" "list_ex (overlaps (tentative dt b)) shs"
  shows "update dt (Some shs) rnd b =
         stopIfSlow (glowPulse dt (sparkle dt (spin dt (bounce (x b) (y b) rnd (tentative dt b)))))"
proof -
  have ns: "\<not> isShelved (tentative dt b)"
    using assms(2) by (simp add: tentative_def move_def applyFriction_def)
  have "checkShelves ox oy rnd (Some shs) (tentative dt b) = bounce ox oy rnd (tentative dt b)" for ox oy
    using ns assms(3) by (simp add: checkShelves_def collide_hit)
  with assms(1) show ?thesis
    by (simp add: update_def Let_def tentative_def applyFriction_def)
qed

lemma glowPulse_geometry [simp]:
  "x (glowPulse dt b) = x b" "y (glowPulse dt b) = y b"
  "width (glowPulse dt b) = width b" "height (glowPulse dt b) = height b"
  "vx (glowPulse dt b) = vx b" "vy (glowPulse dt b) = vy b"
  "isHeld (glowPulse dt b) = isHeld b" "friction (glowPulse dt b) = friction b"
  by (simp_all add: glowPulse_def Let_def)

lemma stopIfSlow_geometry [simp]:
  "x (stopIfSlow b) = x b" "y (stopIfSlow b) = y b"
  "width (stopIfSlow b) = width b" "height (stopIfSlow b) = height b"
  "isHeld (stopIfSlow b) = isHeld b" "friction (stopIfSlow b) = friction b"
  "glowIntensity (stopIfSlow b) = glowIntensity b" "glowDirection (stopIfSlow b) = glowDirection b"
  by (simp_all add: stopIfSlow_def)

lemma stopIfSlow_velocity:
  "vx (stopIfSlow b) = (if \<bar>vx b\<bar> < 5 \<and> \<bar>vy b\<bar> < 5 then 0 else vx b)"
  "vy (stopIfSlow b) = (if \<bar>vx b\<bar> < 5 \<and> \<bar>vy b\<bar> < 5 then 0 else vy b)"
  by (simp_all add: stopIfSlow_def)

lemma overlaps_cong:
  "x b' = x b \<Longrightarrow> y b' = y b \<Longrightarrow> width b' = width b \<Longrightarrow> height b' = height b \<Longrightarrow>
   overlaps b' sh = overlaps b sh"
  by (simp add: overlaps_def)


lemma update_hit_geometry:
  assumes "\<not> isHeld b" "\<not> isShelved b" "list_ex (overlaps (tentative dt b)) shs"
  shows "x (update dt (Some shs) rnd b) = x b" "y (update dt (Some shs) rnd b) = y b"
    "width (update dt (Some shs) rnd b) = width b" "height (update dt (Some shs) rnd b) = height b"
  unfolding update_hit [OF assms]
  by (simp_all add: sparkle_def spin_def bounce_def tentative_def move_def applyFriction_def)

lemma update_hit_overlaps:
  assumes "\<not> isHeld b" "\<not> isShelved b" "list_ex (overlaps (tentative dt b)) shs"
  shows "overlaps (update dt (Some shs) rnd b) sh = overlaps b sh"
  using update_hit_geometry [OF assms] by (intro overlaps_cong)

subsection \<open>Evaluating the examples\<close>

lemma thrownBook_eq: "thrownBook = (new_Book 0 0 ''red'')\<lparr> vx := 4 \<rparr>"
  by (simp add: thrownBook_def drop_book_def new_Book_def)

lemma thrownBook_tentative:
  "tentative 0.016 thrownBook = (new_Book 0 0 ''red'')\<lparr> x := 0.0576, vx := 3.6 \<rparr>"
  by (simp add: thrownBook_eq tentative_def move_def applyFriction_def new_Book_def)

lemma thrownBook_hits: "overlaps (tentative 0.016 thrownBook) closeShelf"
  unfolding thrownBook_tentative
  by (simp add: overlaps_def closeShelf_def new_Shelf_def new_Book_def)

lemma thrownBook_apart: "\<not> overlaps thrownBook closeShelf"
  by (simp add: thrownBook_eq overlaps_def closeShelf_def new_Shelf_def new_Book_def)

lemma thrownBook_free: "\<not> isHeld thrownBook" "\<not> isShelved thrownBook"
  by (simp_all add: thrownBook_eq new_Book_def)

lemma thrownBook_update:
  "update 0.016 (Some [closeShelf]) (0, 0) thrownBook =
     stopIfSlow (glowPulse 0.016 (sparkle 0.016 (spin 0.016 ((new_Book 0 0 ''red'')\<lparr> vx := - 11.8, vy := - 10 \<rparr>))))"
proof -
  have "update 0.016 (Some [closeShelf]) (0, 0) thrownBook =
     stopIfSlow (glowPulse 0.016 (sparkle 0.016 (spin 0.016 (bounce (x thrownBook) (y thrownBook) (0, 0) (tentative 0.016 thrownBook)))))"
    using thrownBook_free thrownBook_hits by (intro update_hit) simp_all
  also have "bounce (x thrownBook) (y thrownBook) (0, 0) (tentative 0.016 thrownBook) =
      (new_Book 0 0 ''red'')\<lparr> vx := - 11.8, vy := - 10 \<rparr>"
    unfolding thrownBook_tentative by (simp add: thrownBook_eq bounce_def new_Book_def)
  finally show ?thesis .
qed

lemma thrownBook_update_velocity:
  "vx (update 0.016 (Some [closeShelf]) (0, 0) thrownBook) = - 11.8"
  "vy (update 0.016 (Some [closeShelf]) (0, 0) thrownBook) = - 10"
  unfolding thrownBook_update
  by (simp_all add: stopIfSlow_velocity sparkle_def spin_def new_Book_def)

lemma demo_added:
  "snd (addBook 0 1 demoWorld) =
      demoWorld\<lparr> shelfHeap := (shelfHeap demoWorld)(0 := (new_Shelf 100 100 ''red'' 2)\<lparr> books := [Some 1, None] \<rparr>),
                 bookHeap := (bookHeap demoWorld)(1 := shelve (Some 0) (new_Book 0 0 ''red'')) \<rparr>"
  by (simp add: addBook_def firstEmptySlot.simps demo_defs eval_nat_numeral)


lemma demo_slot0: "renderSlot 0 0 (snd (addBook 0 1 demoWorld)) = 
      demoWorld\<lparr> shelfHeap := (shelfHeap demoWorld)(0 := (new_Shelf 100 100 ''red'' 2)\<lparr> books := [Some 1, None] \<rparr>),
                 bookHeap := (bookHeap demoWorld)(1 := shelve (Some 0) (new_Book (308 / 3) 124 ''red'')) \<rparr>"
  unfolding demo_added
  apply (simp add: renderSlot_def js_get_def Let_def)
  apply (simp add: demoWorld_def render_def shelve_def new_Book_def new_Shelf_def)
  done

lemma demo_rendered:
  "renderBooks 0 (snd (addBook 0 1 demoWorld)) =
      demoWorld\<lparr> shelfHeap := (shelfHeap demoWorld)(0 := (new_Shelf 100 100 ''red'' 2)\<lparr> books := [Some 1, None] \<rparr>),
                 bookHeap := (bookHeap demoWorld)(1 := shelve (Some 0) (new_Book (308 / 3) 124 ''red'')) \<rparr>"
proof -
  have len: "[0 ..< length (books (shelfHeap (snd (addBook 0 1 demoWorld)) 0))] = [0, 1]"
    unfolding demo_added by (simp add: eval_nat_numeral)
  have "renderBooks 0 (snd (addBook 0 1 demoWorld)) =
        renderSlot 0 1 (renderSlot 0 0 (snd (addBook 0 1 demoWorld)))"
    unfolding renderBooks_def len by simp
  also have "\<dots> = renderSlot 0 0 (snd (addBook 0 1 demoWorld))"
    unfolding demo_slot0 by (simp add: renderSlot_def js_get_def)
  finally show ?thesis unfolding demo_slot0 .
qed


lemma takenOffWorld_book: "bookHeap takenOffWorld 1 = new_Book (308 / 3) 124 ''red''"
  unfolding takenOffWorld_def demo_rendered
  apply (simp add: removeBook_def js_get_def js_set_def Let_def)
  apply (simp add: unshelve_def shelve_def new_Book_def)
  done

lemma takenOffWorld_shelf: "shelfHeap takenOffWorld 0 = new_Shelf 100 100 ''red'' 2"
  unfolding takenOffWorld_def demo_rendered
  apply (simp add: removeBook_def js_get_def js_set_def Let_def)
  apply (simp add: new_Shelf_def eval_nat_numeral)
  done


lemma takenOff_tentative:
  "tentative 0.016 (bookHeap takenOffWorld 1) = new_Book (308 / 3) 124 ''red''"
  unfolding takenOffWorld_book
  by (simp add: tentative_def move_def applyFriction_def new_Book_def)

lemma takenOff_hits:
  "overlaps (tentative 0.016 (bookHeap takenOffWorld 1)) (shelfHeap takenOffWorld 0)"
  unfolding takenOff_tentative takenOffWorld_shelf
  by (simp add: overlaps_def new_Book_def new_Shelf_def)

lemma takenOff_free:
  "\<not> isHeld (bookHeap takenOffWorld 1)" "\<not> isShelved (bookHeap takenOffWorld 1)"
  unfolding takenOffWorld_book by (simp_all add: new_Book_def)

lemma takenOff_inside: "overlaps (bookHeap takenOffWorld 1) (shelfHeap takenOffWorld 0)"
  unfolding takenOffWorld_book takenOffWorld_shelf
  by (simp add: overlaps_def new_Book_def new_Shelf_def)

subsection \<open>Collision with a shelf\<close>

text \<open>
  C3. When the tentatively moved position of a free book (not held, not shelved)
  overlaps a shelf, then after \<open>update\<close> the book is back at its position from before
  the move; only the first overlapping shelf in the order of the collection is handled
  (the result is the one for that shelf alone); the velocity, after friction, is
  reversed and halved and the jitter \<open>(r - 0.5) * 20\<close> added per axis, which is at most 10
  in magnitude for a random draw \<open>r\<close> in \<open>[0, 1)\<close>, and is then subject to the rest
  clamp of the same call. The book overlaps a shelf afterwards only if it did before the
  call: if it overlapped no shelf before, it overlaps none after.
\<close>

theorem update_collision:
  assumes "\<not> isHeld b" and "\<not> isShelved b"
    and "\<exists>sh \<in> set shs. overlaps (tentative dt b) sh"
  shows "x (update dt (Some shs) rnd b) = x b \<and> y (update dt (Some shs) rnd b) = y b \<and>
         (\<exists>pre sh post. shs = pre @ sh # post \<and>
             (\<forall>s \<in> set pre. \<not> overlaps (tentative dt b) s) \<and> overlaps (tentative dt b) sh \<and>
             update dt (Some shs) rnd b = update dt (Some [sh]) rnd b) \<and>
         (\<exists>jx jy. jx = (fst rnd - 0.5) * 20 \<and> jy = (snd rnd - 0.5) * 20 \<and>
             (0 \<le> fst rnd \<and> fst rnd < 1 \<longrightarrow> \<bar>jx\<bar> \<le> 10) \<and>
             (0 \<le> snd rnd \<and> snd rnd < 1 \<longrightarrow> \<bar>jy\<bar> \<le> 10) \<and>
             vx (update dt (Some shs) rnd b) =
               (if \<bar>- (vx b * friction b) * 0.5 + jx\<bar> < 5 \<and> \<bar>- (vy b * friction b) * 0.5 + jy\<bar> < 5
                then 0 else - (vx b * friction b) * 0.5 + jx) \<and>
             vy (update dt (Some shs) rnd b) =
               (if \<bar>- (vx b * friction b) * 0.5 + jx\<bar> < 5 \<and> \<bar>- (vy b * friction b) * 0.5 + jy\<bar> < 5
                then 0 else - (vy b * friction b) * 0.5 + jy)) \<and>
         ((\<forall>sh \<in> set shs. \<not> overlaps b sh) \<longrightarrow>
            (\<forall>sh \<in> set shs. \<not> overlaps (update dt (Some shs) rnd b) sh))"
proof -
  define b' where "b' = update dt (Some shs) rnd b"
  from assms(3) have hit: "list_ex (overlaps (tentative dt b)) shs"
    by (simp add: list_ex_iff)
  have b': "b' = stopIfSlow (glowPulse dt (sparkle dt (spin dt (bounce (x b) (y b) rnd (tentative dt b)))))"
    unfolding b'_def using assms(1,2) hit by (rule update_hit)
  have pos: "x b' = x b" "y b' = y b"
    unfolding b'_def using assms(1,2) hit by (rule update_hit_geometry)+
  from assms(3) obtain pre sh post where split:
    "shs = pre @ sh # post" "overlaps (tentative dt b) sh" "\<forall>s \<in> set pre. \<not> overlaps (tentative dt b) s"
    using split_list_first_prop [of shs "overlaps (tentative dt b)"] by blast
  have "update dt (Some [sh]) rnd b = b'"
    unfolding b' using assms(1,2) split(2) by (intro update_hit) simp_all
  with split have first: "\<exists>pre sh post. shs = pre @ sh # post \<and>
             (\<forall>s \<in> set pre. \<not> overlaps (tentative dt b) s) \<and> overlaps (tentative dt b) sh \<and>
             b' = update dt (Some [sh]) rnd b"
    by metis
  have vel: "vx b' = (if \<bar>- (vx b * friction b) * 0.5 + (fst rnd - 0.5) * 20\<bar> < 5 \<and>
                         \<bar>- (vy b * friction b) * 0.5 + (snd rnd - 0.5) * 20\<bar> < 5
                      then 0 else - (vx b * friction b) * 0.5 + (fst rnd - 0.5) * 20)"
            "vy b' = (if \<bar>- (vx b * friction b) * 0.5 + (fst rnd - 0.5) * 20\<bar> < 5 \<and>
                         \<bar>- (vy b * friction b) * 0.5 + (snd rnd - 0.5) * 20\<bar> < 5
                      then 0 else - (vy b * friction b) * 0.5 + (snd rnd - 0.5) * 20)"
    by (simp_all add: b' stopIfSlow_velocity sparkle_def spin_def bounce_def tentative_def move_def applyFriction_def)
  have jit: "0 \<le> r \<and> r < 1 \<longrightarrow> \<bar>(r - 0.5) * 20\<bar> \<le> 10" for r :: real
    by (auto simp: abs_le_iff)
  have keep: "(\<forall>sh \<in> set shs. \<not> overlaps b sh) \<longrightarrow> (\<forall>sh \<in> set shs. \<not> overlaps b' sh)"
    unfolding b'_def using assms(1,2) hit by (simp add: update_hit_overlaps)
  from pos first vel jit keep show ?thesis
    unfolding b'_def [symmetric] by blast
qed

theorem update_collision_witness:
  "\<not> isHeld thrownBook \<and> \<not> isShelved thrownBook \<and>
   (\<exists>sh \<in> set [closeShelf]. overlaps (tentative 0.016 thrownBook) sh) \<and>
   x (update 0.016 (Some [closeShelf]) (0, 0) thrownBook) = x thrownBook \<and>
   \<not> overlaps (update 0.016 (Some [closeShelf]) (0, 0) thrownBook) closeShelf"
proof -
  have h3: "\<exists>sh \<in> set [closeShelf]. overlaps (tentative 0.016 thrownBook) sh"
    using thrownBook_hits by simp
  have h4: "\<forall>sh \<in> set [closeShelf]. \<not> overlaps thrownBook sh"
    using thrownBook_apart by simp
  from update_collision [OF thrownBook_free h3, of "(0, 0)"] h4
  have "x (update 0.016 (Some [closeShelf]) (0, 0) thrownBook) = x thrownBook"
    and "\<forall>sh \<in> set [closeShelf]. \<not> overlaps (update 0.016 (Some [closeShelf]) (0, 0) thrownBook) sh"
    by blast+
  with thrownBook_free h3 show ?thesis by simp
qed

text \<open>
  The unconditional reading, that the book never overlaps a shelf after \<open>update\<close>, fails
  for a book that starts inside a shelf's box, such as one just taken off the shelf: it
  is put back where it was.
\<close>

theorem update_collision_counterexample:
  "\<not> isHeld (bookHeap takenOffWorld 1) \<and> \<not> isShelved (bookHeap takenOffWorld 1) \<and>
   overlaps (tentative 0.016 (bookHeap takenOffWorld 1)) (shelfHeap takenOffWorld 0) \<and>
   overlaps (update 0.016 (Some [shelfHeap takenOffWorld 0]) (0.5, 0.5) (bookHeap takenOffWorld 1))
            (shelfHeap takenOffWorld 0)"
proof -
  have "list_ex (overlaps (tentative 0.016 (bookHeap takenOffWorld 1))) [shelfHeap takenOffWorld 0]"
    using takenOff_hits by simp
  from update_hit_overlaps [OF takenOff_free this] takenOff_inside
  have "overlaps (update 0.016 (Some [shelfHeap takenOffWorld 0]) (0.5, 0.5) (bookHeap takenOffWorld 1))
               (shelfHeap takenOffWorld 0)"
    by blast
  with takenOff_free takenOff_hits show ?thesis by blast
qed

subsection \<open>Friction and rest\<close>

lemma update_no_hit_velocity:
  assumes "\<not> isHeld b" "\<not> hitsShelf dt shelves b"
  shows "vx (update dt shelves rnd b) =
           (if \<bar>vx b * friction b\<bar> < 5 \<and> \<bar>vy b * friction b\<bar> < 5 then 0 else vx b * friction b)"
    and "vy (update dt shelves rnd b) =
           (if \<bar>vx b * friction b\<bar> < 5 \<and> \<bar>vy b * friction b\<bar> < 5 then 0 else vy b * friction b)"
  unfolding update_no_hit [OF assms]
  by (simp_all add: stopIfSlow_velocity sparkle_def spin_def tentative_def move_def applyFriction_def)

lemma update_isHeld [simp]: "isHeld (update dt shelves rnd b) = isHeld b"
proof (cases "isHeld b")
  case True
  then show ?thesis by (simp add: update_def)
next
  case False
  have "isHeld (collide ox oy rnd shs c) = isHeld c" for ox oy shs c
    by (induction shs) (simp_all add: bounce_def)
  then have "isHeld (checkShelves ox oy rnd shelves c) = isHeld c" for ox oy c
    by (cases shelves) (simp_all add: checkShelves_def)
  with False show ?thesis
    by (simp add: update_def Let_def sparkle_def spin_def move_def applyFriction_def)
qed

lemma update_friction [simp]: "friction (update dt shelves rnd b) = friction b"
proof (cases "isHeld b")
  case True
  then show ?thesis by (simp add: update_def)
next
  case False
  have "friction (collide ox oy rnd shs c) = friction c" for ox oy shs c
    by (induction shs) (simp_all add: bounce_def)
  then have "friction (checkShelves ox oy rnd shelves c) = friction c" for ox oy c
    by (cases shelves) (simp_all add: checkShelves_def)
  with False show ?thesis
    by (simp add: update_def Let_def sparkle_def spin_def move_def applyFriction_def)
qed

lemma updates_isHeld [simp]: "isHeld (updates fs b) = isHeld b"
  by (induction fs b rule: updates.induct) simp_all

lemma updates_friction [simp]: "friction (updates fs b) = friction b"
  by (induction fs b rule: updates.induct) simp_all

lemma updates_append: "updates (fs @ gs) b = updates gs (updates fs b)"
  by (induction fs b rule: updates.induct) simp_all

lemma updates_take_Suc:
  assumes "k < length fs" "fs ! k = (dt, shelves, rnd)"
  shows "updates (take (Suc k) fs) b = update dt shelves rnd (updates (take k fs) b)"
  using assms by (simp add: take_Suc_conv_app_nth updates_append)

lemma noCollision_nth:
  "noCollision fs b \<Longrightarrow> k < length fs \<Longrightarrow> fs ! k = (dt, shelves, rnd) \<Longrightarrow>
   \<not> hitsShelf dt shelves (updates (take k fs) b)"
proof (induction fs b arbitrary: k rule: noCollision.induct)
  case (1 b)
  then show ?case by simp
next
  case (2 dt' shelves' rnd' fs b)
  show ?case
  proof (cases k)
    case 0
    with "2.prems" show ?thesis by simp
  next
    case (Suc k')
    with "2.prems" "2.IH" [of k'] show ?thesis by simp
  qed
qed

lemma free_step:
  assumes "\<not> isHeld b" "friction b = 0.9" "\<not> hitsShelf dt shelves b"
  shows "\<bar>vx (update dt shelves rnd b)\<bar> \<le> \<bar>vx b\<bar>"
    and "\<bar>vy (update dt shelves rnd b)\<bar> \<le> \<bar>vy b\<bar>"
    and "\<bar>vx b\<bar> < 5 \<and> \<bar>vy b\<bar> < 5 \<Longrightarrow>
         vx (update dt shelves rnd b) = 0 \<and> vy (update dt shelves rnd b) = 0"
proof -
  have a: "\<bar>v * 0.9\<bar> \<le> \<bar>v\<bar>" for v :: real
    by (simp add: abs_mult)
  from a show "\<bar>vx (update dt shelves rnd b)\<bar> \<le> \<bar>vx b\<bar>"
    by (simp add: update_no_hit_velocity [OF assms(1,3)] assms(2))
  from a show "\<bar>vy (update dt shelves rnd b)\<bar> \<le> \<bar>vy b\<bar>"
    by (simp add: update_no_hit_velocity [OF assms(1,3)] assms(2))
  assume small: "\<bar>vx b\<bar> < 5 \<and> \<bar>vy b\<bar> < 5"
  with a [of "vx b"] a [of "vy b"] have "\<bar>vx b * 0.9\<bar> < 5 \<and> \<bar>vy b * 0.9\<bar> < 5"
    by linarith
  then show "vx (update dt shelves rnd b) = 0 \<and> vy (update dt shelves rnd b) = 0"
    by (simp add: update_no_hit_velocity [OF assms(1,3)] assms(2))
qed

lemma tentative_geometry:
  "x (tentative dt b) = x b + vx b * friction b * dt"
  "y (tentative dt b) = y b + vy b * friction b * dt"
  "width (tentative dt b) = width b" "height (tentative dt b) = height b"
  by (simp_all add: tentative_def move_def applyFriction_def)

lemma update_no_hit_geometry:
  assumes "\<not> isHeld b" "\<not> hitsShelf dt shelves b"
  shows "x (update dt shelves rnd b) = x (tentative dt b)"
    "y (update dt shelves rnd b) = y (tentative dt b)"
    "width (update dt shelves rnd b) = width b" "height (update dt shelves rnd b) = height b"
  unfolding update_no_hit [OF assms]
  by (simp_all add: sparkle_def spin_def tentative_geometry)

lemma thrownBook_calm: "\<not> hitsShelf 0.016 (Some [nearShelf]) thrownBook"
  by (simp add: hitsShelf_def overlaps_def tentative_geometry thrownBook_eq nearShelf_def
      new_Book_def new_Shelf_def)

lemma thrownBook_calm_next:
  "\<not> hitsShelf 0.016 (Some [nearShelf]) (update 0.016 (Some [nearShelf]) (0, 0) thrownBook)"
proof -
  let ?b = "update 0.016 (Some [nearShelf]) (0, 0) thrownBook"
  note g = update_no_hit_geometry [OF thrownBook_free(1) thrownBook_calm, of "(0, 0)"]
  note v = update_no_hit_velocity [OF thrownBook_free(1) thrownBook_calm, of "(0, 0)"]
  have "vx ?b = 0" "vy ?b = 0"
    unfolding v by (simp_all add: thrownBook_eq new_Book_def)
  moreover have "x ?b = 0.0576" "y ?b = 0" "width ?b = 16" "height ?b = 20"
    unfolding g by (simp_all add: tentative_geometry thrownBook_eq new_Book_def)
  ultimately show ?thesis
    by (simp add: hitsShelf_def overlaps_def tentative_geometry nearShelf_def new_Shelf_def)
qed

lemma calmFrames_noCollision: "noCollision calmFrames thrownBook"
  using thrownBook_calm thrownBook_calm_next by (simp add: calmFrames_def)

text \<open>
  C5. Take a book that is not held, with the friction 0.9 its constructor sets, and any
  sequence of \<open>update\<close> calls with nothing in between, in none of which the tentatively
  moved position overlaps a shelf. Then from each call to the next the magnitude of
  either velocity component does not grow, and once both magnitudes are below 5 the
  velocity is exactly \<open>(0, 0)\<close> after the next call and after every later one.
\<close>

theorem free_decay:
  assumes "\<not> isHeld b" and "friction b = 0.9" and "noCollision fs b"
  shows "\<forall>k < length fs.
           \<bar>vx (updates (take (Suc k) fs) b)\<bar> \<le> \<bar>vx (updates (take k fs) b)\<bar> \<and>
           \<bar>vy (updates (take (Suc k) fs) b)\<bar> \<le> \<bar>vy (updates (take k fs) b)\<bar> \<and>
           (\<bar>vx (updates (take k fs) b)\<bar> < 5 \<and> \<bar>vy (updates (take k fs) b)\<bar> < 5 \<longrightarrow>
              (\<forall>j. k < j \<and> j \<le> length fs \<longrightarrow>
                 vx (updates (take j fs) b) = 0 \<and> vy (updates (take j fs) b) = 0))"
proof (intro allI impI)
  fix k assume k: "k < length fs"
  have step: "\<bar>vx (updates (take (Suc i) fs) b)\<bar> \<le> \<bar>vx (updates (take i fs) b)\<bar> \<and>
              \<bar>vy (updates (take (Suc i) fs) b)\<bar> \<le> \<bar>vy (updates (take i fs) b)\<bar> \<and>
              (\<bar>vx (updates (take i fs) b)\<bar> < 5 \<and> \<bar>vy (updates (take i fs) b)\<bar> < 5 \<longrightarrow>
                 vx (updates (take (Suc i) fs) b) = 0 \<and> vy (updates (take (Suc i) fs) b) = 0)"
    if i: "i < length fs" for i
  proof -
    obtain dt shelves rnd where f: "fs ! i = (dt, shelves, rnd)"
      by (cases "fs ! i") auto
    let ?c = "updates (take i fs) b"
    have c: "\<not> isHeld ?c" "friction ?c = 0.9" using assms(1,2) by simp_all
    have nh: "\<not> hitsShelf dt shelves ?c"
      using assms(3) i f by (rule noCollision_nth)
    show ?thesis
      unfolding updates_take_Suc [OF i f]
      using free_step [OF c nh, of rnd] by blast
  qed
  have rest: "vx (updates (take j fs) b) = 0 \<and> vy (updates (take j fs) b) = 0"
    if small: "\<bar>vx (updates (take k fs) b)\<bar> < 5 \<and> \<bar>vy (updates (take k fs) b)\<bar> < 5"
      and j: "k < j" "j \<le> length fs" for j
    using j
  proof (induction j)
    case 0
    then show ?case by simp
  next
    case (Suc j)
    show ?case
    proof (cases "j = k")
      case True
      with step [of k] k small show ?thesis by simp
    next
      case False
      with Suc.prems have "k < j" "j \<le> length fs" "j < length fs" by simp_all
      with Suc.IH have "vx (updates (take j fs) b) = 0 \<and> vy (updates (take j fs) b) = 0" by simp
      with step [OF \<open>j < length fs\<close>] show ?thesis by simp
    qed
  qed
  from step [OF k] rest
  show "\<bar>vx (updates (take (Suc k) fs) b)\<bar> \<le> \<bar>vx (updates (take k fs) b)\<bar> \<and>
           \<bar>vy (updates (take (Suc k) fs) b)\<bar> \<le> \<bar>vy (updates (take k fs) b)\<bar> \<and>
           (\<bar>vx (updates (take k fs) b)\<bar> < 5 \<and> \<bar>vy (updates (take k fs) b)\<bar> < 5 \<longrightarrow>
              (\<forall>j. k < j \<and> j \<le> length fs \<longrightarrow>
                 vx (updates (take j fs) b) = 0 \<and> vy (updates (take j fs) b) = 0))"
    by blast
qed

theorem free_decay_witness:
  "\<not> isHeld thrownBook \<and> friction thrownBook = 0.9 \<and> noCollision calmFrames thrownBook \<and>
   \<bar>vx thrownBook\<bar> < 5 \<and> \<bar>vy thrownBook\<bar> < 5 \<and> vx thrownBook = 4 \<and>
   vx (updates (take 1 calmFrames) thrownBook) = 0 \<and> vy (updates (take 1 calmFrames) thrownBook) = 0 \<and>
   vx (updates calmFrames thrownBook) = 0 \<and> vy (updates calmFrames thrownBook) = 0"
proof -
  have h2: "friction thrownBook = 0.9" by (simp add: thrownBook_eq new_Book_def)
  have v: "vx thrownBook = 4" "vy thrownBook = 0" by (simp_all add: thrownBook_eq new_Book_def)
  have len: "length calmFrames = 2" by (simp add: calmFrames_def)
  from free_decay [OF thrownBook_free(1) h2 calmFrames_noCollision, THEN spec, of 0] len
  have "\<bar>vx (updates (take 0 calmFrames) thrownBook)\<bar> < 5 \<and> \<bar>vy (updates (take 0 calmFrames) thrownBook)\<bar> < 5 \<longrightarrow>
        (\<forall>j. 0 < j \<and> j \<le> 2 \<longrightarrow>
           vx (updates (take j calmFrames) thrownBook) = 0 \<and> vy (updates (take j calmFrames) thrownBook) = 0)"
    by simp
  with v have "\<forall>j. 0 < j \<and> j \<le> 2 \<longrightarrow>
           vx (updates (take j calmFrames) thrownBook) = 0 \<and> vy (updates (take j calmFrames) thrownBook) = 0"
    by simp
  then have "vx (updates (take 1 calmFrames) thrownBook) = 0 \<and> vy (updates (take 1 calmFrames) thrownBook) = 0"
    and "vx (updates (take 2 calmFrames) thrownBook) = 0 \<and> vy (updates (take 2 calmFrames) thrownBook) = 0"
    by simp_all
  with len thrownBook_free(1) h2 calmFrames_noCollision v show ?thesis by simp
qed

text \<open>
  Without the condition on the tentative position the statement fails: a free book
  that overlaps no shelf but moves into one within a frame of 16 ms is bounced, and the jitter makes it faster
  than it was, also when both components were below 5.
\<close>

theorem free_decay_counterexample:
  "\<not> isHeld thrownBook \<and> \<not> isShelved thrownBook \<and> \<not> overlaps thrownBook closeShelf \<and>
   \<bar>vx thrownBook\<bar> < 5 \<and> \<bar>vy thrownBook\<bar> < 5 \<and>
   \<bar>vx (update 0.016 (Some [closeShelf]) (0, 0) thrownBook)\<bar> > \<bar>vx thrownBook\<bar> \<and>
   \<bar>vy (update 0.016 (Some [closeShelf]) (0, 0) thrownBook)\<bar> > \<bar>vy thrownBook\<bar> \<and>
   vx (update 0.016 (Some [closeShelf]) (0, 0) thrownBook) \<noteq> 0"
  unfolding thrownBook_update_velocity
  using thrownBook_free thrownBook_apart
  by (simp add: thrownBook_eq new_Book_def)

subsection \<open>Glow\<close>












section \<open>Shelf: rendering\<close>

lemma render_flags [simp]:
  "isShelved (render b) = isShelved b" "shelf (render b) = shelf b"
  by (simp_all add: render_def renderOptimizedGlow_def)

lemma renderSlot_flags:
  "isShelved (bookHeap (renderSlot s i w) b) = isShelved (bookHeap w b)"
  "shelf (bookHeap (renderSlot s i w) b) = shelf (bookHeap w b)"
  by (simp_all add: renderSlot_def Let_def split: option.splits)

lemma renderSlot_other_shelf:
  "t \<noteq> s \<Longrightarrow> shelfHeap (renderSlot s i w) t = shelfHeap w t"
  by (simp add: renderSlot_def Let_def split: option.splits)

lemma renderSlot_capacity:
  "capacity (shelfHeap (renderSlot s i w) t) = capacity (shelfHeap w t)"
  by (simp add: renderSlot_def Let_def split: option.splits)

lemma healed_idem: "healed w s (healed w s v) = healed w s v"
  by (simp add: healed_def split: option.splits)

lemma healed_None [simp]: "healed w s None = None"
  by (simp add: healed_def)

lemma healed_renderSlot: "healed (renderSlot t i w) s v = healed w s v"
  by (simp add: healed_def renderSlot_flags split: option.splits)

lemma renderSlot_books:
  "books (shelfHeap (renderSlot s i w) s) =
     (if i < length (books (shelfHeap w s))
      then (books (shelfHeap w s))[i := healed w s (books (shelfHeap w s) ! i)]
      else books (shelfHeap w s))"
proof (cases "js_get (books (shelfHeap w s)) i")
  case None
  then have same: "renderSlot s i w = w" by (simp add: renderSlot_def Let_def)
  show ?thesis
  proof (cases "i < length (books (shelfHeap w s))")
    case True
    with None have "books (shelfHeap w s) ! i = None" by (simp add: js_get_def)
    then have "(books (shelfHeap w s))[i := healed w s (books (shelfHeap w s) ! i)] = books (shelfHeap w s)"
      by (metis healed_None list_update_id)
    with True show ?thesis unfolding same by simp
  next
    case False
    then show ?thesis unfolding same by simp
  qed
next
  case (Some b)
  then have i: "i < length (books (shelfHeap w s))" and b: "books (shelfHeap w s) ! i = Some b"
    by (auto simp: js_get_def split: if_splits)
  show ?thesis
  proof (cases "\<not> isShelved (bookHeap w b) \<or> shelf (bookHeap w b) \<noteq> Some s")
    case True
    with Some i b show ?thesis
      by (auto simp: renderSlot_def Let_def js_set_def healed_def)
  next
    case False
    with b have "healed w s (books (shelfHeap w s) ! i) = books (shelfHeap w s) ! i"
      by (simp add: healed_def)
    with Some i False show ?thesis
      by (simp add: renderSlot_def Let_def)
  qed
qed

lemma fold_renderSlot:
  "(\<forall>b. isShelved (bookHeap (fold (renderSlot s) is w) b) = isShelved (bookHeap w b) \<and>
        shelf (bookHeap (fold (renderSlot s) is w) b) = shelf (bookHeap w b)) \<and>
   (\<forall>t. capacity (shelfHeap (fold (renderSlot s) is w) t) = capacity (shelfHeap w t)) \<and>
   (\<forall>t. t \<noteq> s \<longrightarrow> shelfHeap (fold (renderSlot s) is w) t = shelfHeap w t) \<and>
   length (books (shelfHeap (fold (renderSlot s) is w) s)) = length (books (shelfHeap w s)) \<and>
   (\<forall>j < length (books (shelfHeap w s)).
      books (shelfHeap (fold (renderSlot s) is w) s) ! j =
        (if j \<in> set is then healed w s (books (shelfHeap w s) ! j) else books (shelfHeap w s) ! j))"
proof (induction "is" arbitrary: w)
  case Nil
  then show ?case by simp
next
  case (Cons i "is")
  let ?w1 = "renderSlot s i w"
  let ?bs = "books (shelfHeap w s)"
  note IH = Cons.IH [of ?w1]
  have len1: "length (books (shelfHeap ?w1 s)) = length ?bs"
    by (simp add: renderSlot_books)
  have nth1: "books (shelfHeap ?w1 s) ! j = (if j = i then healed w s (?bs ! j) else ?bs ! j)"
    if "j < length ?bs" for j
    using that by (simp add: renderSlot_books nth_list_update)
  have flags: "\<forall>b. isShelved (bookHeap (fold (renderSlot s) (i # is) w) b) = isShelved (bookHeap w b) \<and>
        shelf (bookHeap (fold (renderSlot s) (i # is) w) b) = shelf (bookHeap w b)"
    using IH by (simp add: renderSlot_flags)
  have cap: "\<forall>t. capacity (shelfHeap (fold (renderSlot s) (i # is) w) t) = capacity (shelfHeap w t)"
    using IH by (simp add: renderSlot_capacity)
  have other: "\<forall>t. t \<noteq> s \<longrightarrow> shelfHeap (fold (renderSlot s) (i # is) w) t = shelfHeap w t"
    using IH by (simp add: renderSlot_other_shelf)
  have len: "length (books (shelfHeap (fold (renderSlot s) (i # is) w) s)) = length ?bs"
    using IH len1 by simp
  have nth: "\<forall>j < length ?bs.
      books (shelfHeap (fold (renderSlot s) (i # is) w) s) ! j =
        (if j \<in> set (i # is) then healed w s (?bs ! j) else ?bs ! j)"
  proof (intro allI impI)
    fix j assume j: "j < length ?bs"
    with IH len1 have "books (shelfHeap (fold (renderSlot s) is ?w1) s) ! j =
        (if j \<in> set is then healed ?w1 s (books (shelfHeap ?w1 s) ! j) else books (shelfHeap ?w1 s) ! j)"
      by simp
    then have step: "books (shelfHeap (fold (renderSlot s) (i # is) w) s) ! j =
        (if j \<in> set is then healed w s (books (shelfHeap ?w1 s) ! j) else books (shelfHeap ?w1 s) ! j)"
      by (simp add: healed_renderSlot)
    show "books (shelfHeap (fold (renderSlot s) (i # is) w) s) ! j =
        (if j \<in> set (i # is) then healed w s (?bs ! j) else ?bs ! j)"
    proof (cases "j = i")
      case True
      then have "books (shelfHeap ?w1 s) ! j = healed w s (?bs ! j)"
        using nth1 [OF j] by simp
      with True show ?thesis unfolding step by (simp add: healed_idem)
    next
      case False
      then have "books (shelfHeap ?w1 s) ! j = ?bs ! j"
        using nth1 [OF j] by simp
      with False show ?thesis unfolding step by simp
    qed
  qed
  from flags cap other len nth show ?case by blast
qed

lemma staleWorld_shelf0: "books (shelfHeap staleWorld 0) = [Some 1, None]"
  unfolding staleWorld_def demo_added
  by (simp add: addBook_def firstEmptySlot.simps demo_defs eval_nat_numeral)

lemma staleWorld_shelf1: "books (shelfHeap staleWorld 1) = [Some 1, None]"
  unfolding staleWorld_def demo_added
  by (simp add: addBook_def firstEmptySlot.simps demo_defs eval_nat_numeral)

lemma staleWorld_book: "isShelved (bookHeap staleWorld 1)" "shelf (bookHeap staleWorld 1) = Some 1"
  unfolding staleWorld_def demo_added
  by (simp_all add: addBook_def firstEmptySlot.simps demo_defs eval_nat_numeral)

text \<open>
  C9. Rendering the books of shelf \<open>s\<close> heals stale slots silently (\<open>renderBooks\<close> is
  total, it raises nothing): the array keeps its length; a slot whose book is not
  shelved or does not refer back to \<open>s\<close> becomes empty and every other slot keeps its
  content (this is \<open>healed\<close>); so afterwards the book of every non-empty slot reports
  \<open>isShelved\<close> and refers to \<open>s\<close>.
\<close>

theorem renderBooks_heals:
  "length (books (shelfHeap (renderBooks s w) s)) = length (books (shelfHeap w s)) \<and>
   (\<forall>i < length (books (shelfHeap w s)).
      books (shelfHeap (renderBooks s w) s) ! i = healed w s (books (shelfHeap w s) ! i)) \<and>
   (\<forall>i b. i < length (books (shelfHeap (renderBooks s w) s)) \<and>
          books (shelfHeap (renderBooks s w) s) ! i = Some b \<longrightarrow>
          isShelved (bookHeap (renderBooks s w) b) \<and> shelf (bookHeap (renderBooks s w) b) = Some s)"
proof -
  let ?bs = "books (shelfHeap w s)"
  let ?w' = "renderBooks s w"
  note F = fold_renderSlot [of s "[0 ..< length ?bs]" w, folded renderBooks_def]
  from F have len: "length (books (shelfHeap ?w' s)) = length ?bs" by blast
  from F have nth: "\<forall>i < length ?bs. books (shelfHeap ?w' s) ! i = healed w s (?bs ! i)"
    by simp
  from F have flags: "\<And>b. isShelved (bookHeap ?w' b) = isShelved (bookHeap w b)"
    "\<And>b. shelf (bookHeap ?w' b) = shelf (bookHeap w b)" by blast+
  have valid: "\<forall>i b. i < length (books (shelfHeap ?w' s)) \<and> books (shelfHeap ?w' s) ! i = Some b \<longrightarrow>
          isShelved (bookHeap ?w' b) \<and> shelf (bookHeap ?w' b) = Some s"
  proof (intro allI impI)
    fix i b assume a: "i < length (books (shelfHeap ?w' s)) \<and> books (shelfHeap ?w' s) ! i = Some b"
    then have "i < length ?bs" using len by simp
    with nth have "books (shelfHeap ?w' s) ! i = healed w s (?bs ! i)" by blast
    with a have "healed w s (?bs ! i) = Some b" by simp
    then have "isShelved (bookHeap w b) \<and> shelf (bookHeap w b) = Some s"
      by (auto simp: healed_def split: option.splits if_splits)
    with flags show "isShelved (bookHeap ?w' b) \<and> shelf (bookHeap ?w' b) = Some s" by simp
  qed
  from len nth valid show ?thesis by blast
qed

theorem renderBooks_heals_witness:
  "books (shelfHeap staleWorld 0) ! 0 = Some 1 \<and> shelf (bookHeap staleWorld 1) = Some 1 \<and>
   books (shelfHeap (renderBooks 0 staleWorld) 0) ! 0 = None \<and>
   books (shelfHeap (renderBooks 1 staleWorld) 1) ! 0 = Some 1 \<and>
   isShelved (bookHeap (renderBooks 1 staleWorld) 1)"
proof -
  have "books (shelfHeap (renderBooks 0 staleWorld) 0) ! 0 = healed staleWorld 0 (Some 1)"
    using renderBooks_heals [of 0 staleWorld] staleWorld_shelf0 by simp
  then have a: "books (shelfHeap (renderBooks 0 staleWorld) 0) ! 0 = None"
    using staleWorld_book by (simp add: healed_def)
  have "books (shelfHeap (renderBooks 1 staleWorld) 1) ! 0 = healed staleWorld 1 (Some 1)"
    using renderBooks_heals [of 1 staleWorld] staleWorld_shelf1 by simp
  then have b: "books (shelfHeap (renderBooks 1 staleWorld) 1) ! 0 = Some 1"
    using staleWorld_book by (simp add: healed_def)
  have "0 < length (books (shelfHeap (renderBooks 1 staleWorld) 1))"
    using renderBooks_heals [of 1 staleWorld] staleWorld_shelf1 by simp
  with b renderBooks_heals [of 1 staleWorld] have c: "isShelved (bookHeap (renderBooks 1 staleWorld) 1)"
    by blast
  from a b c staleWorld_shelf0 staleWorld_book show ?thesis by simp
qed

section \<open>Shelf: counting slots\<close>

lemma length_js_set: "i < length xs \<Longrightarrow> length (js_set xs i v) = length xs"
  by (simp add: js_set_def)

lemma addBook_shelf:
  "capacity (shelfHeap (snd (addBook t b w)) s) = capacity (shelfHeap w s) \<and>
   (wellSized (shelfHeap w s) \<longrightarrow>
      length (books (shelfHeap (snd (addBook t b w)) s)) = length (books (shelfHeap w s)))"
proof (cases "hasEmptySlots (shelfHeap w t) \<and> color (bookHeap w b) = shelfColor (shelfHeap w t)")
  case False
  then show ?thesis by (auto simp: addBook_def Let_def)
next
  case True
  then have lt: "firstEmptySlot (shelfHeap w t) 0 < capacity (shelfHeap w t)"
    by (simp add: hasEmptySlots_firstEmptySlot)
  with True show ?thesis
    by (auto simp: addBook_def Let_def wellSized_def length_js_set)
qed

lemma removeBook_shelf:
  "capacity (shelfHeap (snd (removeBook t i w)) s) = capacity (shelfHeap w s) \<and>
   length (books (shelfHeap (snd (removeBook t i w)) s)) = length (books (shelfHeap w s))"
  by (auto simp: removeBook_def Let_def length_js_set split: option.splits)

lemma removeRandomBook_shelf:
  "capacity (shelfHeap (snd (removeRandomBook t r w)) s) = capacity (shelfHeap w s) \<and>
   length (books (shelfHeap (snd (removeRandomBook t r w)) s)) = length (books (shelfHeap w s))"
  by (simp add: removeRandomBook_def Let_def removeBook_shelf)

lemma Shelf_update_shelf:
  "capacity (shelfHeap (Shelf_update t dt carried w) s) = capacity (shelfHeap w s) \<and>
   books (shelfHeap (Shelf_update t dt carried w) s) = books (shelfHeap w s)"
  by (simp add: Shelf_update_def Let_def)

lemma renderBooks_shelf:
  "capacity (shelfHeap (renderBooks t w) s) = capacity (shelfHeap w s) \<and>
   length (books (shelfHeap (renderBooks t w) s)) = length (books (shelfHeap w s))"
proof -
  note F = fold_renderSlot [of t "[0 ..< length (books (shelfHeap w t))]" w, folded renderBooks_def]
  from F have cap: "capacity (shelfHeap (renderBooks t w) s) = capacity (shelfHeap w s)" by blast
  have "length (books (shelfHeap (renderBooks t w) s)) = length (books (shelfHeap w s))"
  proof (cases "s = t")
    case True
    with F show ?thesis by blast
  next
    case False
    with F have "shelfHeap (renderBooks t w) s = shelfHeap w s" by blast
    then show ?thesis by simp
  qed
  with cap show ?thesis by simp
qed

lemma call_shelf:
  "capacity (shelfHeap (call c w) s) = capacity (shelfHeap w s) \<and>
   (wellSized (shelfHeap w s) \<longrightarrow> wellSized (shelfHeap (call c w) s))"
proof (cases c)
  case (AddBook t b)
  with addBook_shelf [of t b w s] show ?thesis by (simp add: wellSized_def)
next
  case (RemoveBook t i)
  with removeBook_shelf [of t i w s] show ?thesis by (simp add: wellSized_def)
next
  case (RemoveRandomBook t r)
  with removeRandomBook_shelf [of t r w s] show ?thesis by (simp add: wellSized_def)
next
  case (Update t dt carried)
  with Shelf_update_shelf [of t dt carried w s] show ?thesis by (simp add: wellSized_def)
next
  case (RenderBooks t)
  with renderBooks_shelf [of t w s] show ?thesis by (simp add: wellSized_def)
qed

lemma calls_shelf:
  "capacity (shelfHeap (calls cs w) s) = capacity (shelfHeap w s) \<and>
   (wellSized (shelfHeap w s) \<longrightarrow> wellSized (shelfHeap (calls cs w) s))"
  unfolding calls_def
proof (induction cs arbitrary: w)
  case Nil
  then show ?case by simp
next
  case (Cons c cs)
  from Cons.IH [of "call c w"] call_shelf [of c w s] show ?case by simp
qed

lemma count_empty_slots:
  "wellSized sh \<Longrightarrow> getEmptySlotCount sh = int (length (filter (\<lambda>v. v = None) (books sh)))"
proof -
  assume "wellSized sh"
  then have "capacity sh = length (filter (\<lambda>v. v \<noteq> None) (books sh)) + length (filter (\<lambda>v. \<not> v \<noteq> None) (books sh))"
    unfolding wellSized_def by (simp only: sum_length_filter_compl)
  then show ?thesis by (simp add: getEmptySlotCount_def bookCount_def)
qed

lemma demoCalls_books: "books (shelfHeap (calls demoCalls demoWorld) 0) = [Some 1, None]"
  by (simp add: calls_def demoCalls_def addBook_def removeBook_def Shelf_update_def
      firstEmptySlot.simps demo_defs eval_nat_numeral)

text \<open>
  C7. For a shelf as constructed and after any sequence of \<open>addBook\<close>, \<open>removeBook\<close>,
  \<open>removeRandomBook\<close>, \<open>update\<close> and \<open>renderBooks\<close> calls, on this or on other shelves
  of the store: the number of occupied (non-null) slots plus \<open>getEmptySlotCount\<close> equals
  the capacity, and \<open>hasEmptySlots\<close> holds iff the occupied count is below the capacity.
  The capacity and the length of the slot array are still the constructor's, and
  \<open>getEmptySlotCount\<close> is the number of null slots.
\<close>

theorem slot_accounting:
  assumes "shelfHeap w s = new_Shelf x0 y0 c n"
  shows "int (bookCount (shelfHeap (calls cs w) s)) + getEmptySlotCount (shelfHeap (calls cs w) s)
           = int (capacity (shelfHeap (calls cs w) s)) \<and>
         (hasEmptySlots (shelfHeap (calls cs w) s) \<longleftrightarrow>
            bookCount (shelfHeap (calls cs w) s) < capacity (shelfHeap (calls cs w) s)) \<and>
         capacity (shelfHeap (calls cs w) s) = n \<and>
         length (books (shelfHeap (calls cs w) s)) = n \<and>
         getEmptySlotCount (shelfHeap (calls cs w) s) =
           int (length (filter (\<lambda>v. v = None) (books (shelfHeap (calls cs w) s))))"
proof -
  from assms have "wellSized (shelfHeap w s)" and "capacity (shelfHeap w s) = n"
    by (simp_all add: wellSized_def new_Shelf_def)
  with calls_shelf [of cs w s]
  have ws: "wellSized (shelfHeap (calls cs w) s)" and cap: "capacity (shelfHeap (calls cs w) s) = n"
    by simp_all
  from ws cap have len: "length (books (shelfHeap (calls cs w) s)) = n"
    by (simp add: wellSized_def)
  from cap len count_empty_slots [OF ws] show ?thesis
    by (simp add: getEmptySlotCount_def hasEmptySlots_def)
qed

theorem slot_accounting_witness:
  "shelfHeap demoWorld 0 = new_Shelf 100 100 ''red'' 2 \<and>
   bookCount (shelfHeap (calls demoCalls demoWorld) 0) = 1 \<and>
   getEmptySlotCount (shelfHeap (calls demoCalls demoWorld) 0) = 1 \<and>
   capacity (shelfHeap (calls demoCalls demoWorld) 0) = 2 \<and>
   hasEmptySlots (shelfHeap (calls demoCalls demoWorld) 0)"
proof -
  have h: "shelfHeap demoWorld 0 = new_Shelf 100 100 ''red'' 2"
    by (simp add: demoWorld_def)
  have n: "bookCount (shelfHeap (calls demoCalls demoWorld) 0) = 1"
    by (simp add: bookCount_def demoCalls_books)
  from slot_accounting [OF h, of demoCalls] n h show ?thesis by simp
qed

end
